theory Spec2Isabelle
  imports Complex_Main
begin

section \<open>Objects of the document model\<close>

text \<open>
  The program works on the objects a PDF reader hands out. The kinds modelled are the ones
  a colour, an opacity, a subtype or a numeric operand can hold: null, boolean, integer,
  real number, name and array. A Python float is modelled by the real number it denotes
  (the only float operations of the program are conversion and comparison; a decimal
  literal such as 0.02 stands for the double nearest to it, and conversion to the nearest
  double preserves the order of literals). An integer converts to the real of the same
  value, as \<^verbatim>\<open>float\<close> does on every integer a double holds exactly. Names are as a
  reader yields them: they start with a solidus, so they never parse as a number.
\<close>

datatype pdf_object =
    NullObject
  | BooleanObject bool
  | NumberObject int
  | FloatObject real
  | NameObject string
  | ArrayObject "pdf_object list"

datatype py_exception = TypeError | ValueError | IndexError

text \<open>\<^verbatim>\<open>float(c)\<close>: integers and reals convert, a name raises ValueError, anything else TypeError.\<close>

fun py_float :: "pdf_object \<Rightarrow> py_exception + real" where
  "py_float (NumberObject n) = Inr (of_int n)"
| "py_float (FloatObject x) = Inr x"
| "py_float (NameObject s) = Inl ValueError"
| "py_float NullObject = Inl TypeError"
| "py_float (BooleanObject b) = Inl TypeError"
| "py_float (ArrayObject xs) = Inl TypeError"

text \<open>Truth value of an object: zero numbers and empty sequences are false.\<close>

fun py_bool :: "pdf_object \<Rightarrow> bool" where
  "py_bool NullObject = True"
| "py_bool (BooleanObject b) = True"
| "py_bool (NumberObject n) = (n \<noteq> 0)"
| "py_bool (FloatObject x) = (x \<noteq> 0)"
| "py_bool (NameObject s) = (s \<noteq> [])"
| "py_bool (ArrayObject xs) = (xs \<noteq> [])"

text \<open>\<^verbatim>\<open>for c in color\<close>: an array yields its elements, a name its characters.\<close>

fun py_iter :: "pdf_object \<Rightarrow> py_exception + pdf_object list" where
  "py_iter (ArrayObject xs) = Inr xs"
| "py_iter (NameObject s) = Inr (map (\<lambda>c. NameObject [c]) s)"
| "py_iter NullObject = Inl TypeError"
| "py_iter (BooleanObject b) = Inl TypeError"
| "py_iter (NumberObject n) = Inl TypeError"
| "py_iter (FloatObject x) = Inl TypeError"

text \<open>\<^verbatim>\<open>a or b\<close> on the results of two dictionary lookups (\<open>None\<close> is false).\<close>

definition py_or :: "pdf_object option \<Rightarrow> pdf_object option \<Rightarrow> pdf_object option" where
  "py_or a b = (case a of None \<Rightarrow> b | Some x \<Rightarrow> if py_bool x then Some x else b)"

text \<open>An annotation is a dictionary; \<^verbatim>\<open>annot.get(k)\<close> is \<open>annot k\<close>.\<close>

type_synonym annotation = "string \<rightharpoonup> pdf_object"

definition dict_get :: "annotation \<Rightarrow> string \<Rightarrow> pdf_object \<Rightarrow> pdf_object" where
  "dict_get d k dflt = (case d k of None \<Rightarrow> dflt | Some v \<Rightarrow> v)"

section \<open>Annotation filter\<close>

text \<open>
  \<^verbatim>\<open>all(float(c) == 0.0 for c in color)\<close>, left to right: it stops with \<open>False\<close> at the
  first non-zero component and raises at the first component that does not convert.
\<close>

fun all_zero :: "pdf_object list \<Rightarrow> py_exception + bool" where
  "all_zero [] = Inr True"
| "all_zero (c # cs) =
     (case py_float c of
        Inl e \<Rightarrow> Inl e
      | Inr x \<Rightarrow> if x = 0 then all_zero cs else Inr False)"

definition is_black :: "pdf_object option \<Rightarrow> bool" where
  "is_black color =
     (case color of
        None \<Rightarrow> False
      | Some col \<Rightarrow>
          (case py_iter col of
             Inl e \<Rightarrow> False
           | Inr cs \<Rightarrow> (case all_zero cs of Inl e \<Rightarrow> False | Inr b \<Rightarrow> b)))"

definition box_subtypes :: "string list" where
  "box_subtypes = [''/Square'', ''/Polygon'', ''/Highlight'', ''/Ink'', ''/Stamp'']"

definition looks_like_black_box :: "annotation \<Rightarrow> bool" where
  "looks_like_black_box annot =
     (let subtype = annot ''/Subtype'' in
      if subtype \<notin> set (map (\<lambda>s. Some (NameObject s)) box_subtypes) then False
      else
        let color = py_or (annot ''/IC'') (annot ''/C'') in
        if \<not> is_black color then False
        else
          let opacity = dict_get annot ''/CA'' (dict_get annot ''/ca'' (NumberObject 1)) in
          (case py_float opacity of
             Inr x \<Rightarrow> if x < 0.9 then False else True
           | Inl e \<Rightarrow> True))"

section \<open>Content streams\<close>

text \<open>An operation is a pair of operands and operator, as the content stream lists them.\<close>

type_synonym operation = "pdf_object list \<times> string"

text \<open>
  What a page holds under \<^verbatim>\<open>/Contents\<close>: the stream objects the document stores, given
  by the operations they decode to, or a \<^verbatim>\<open>ContentStream\<close> object the program has built
  from a list of operations and written back. The two differ as objects even when they
  list the same operations, so a write to \<^verbatim>\<open>/Contents\<close> is visible in the page.
\<close>

datatype contents_entry =
    Stored "operation list"
  | ContentStream "operation list"

text \<open>\<^verbatim>\<open>ContentStream(contents, reader).operations\<close>: decoding is the reader's work.\<close>

fun operations_of :: "contents_entry \<Rightarrow> operation list" where
  "operations_of (Stored ops) = ops"
| "operations_of (ContentStream ops) = ops"

text \<open>
  A page, as far as the program reads and writes it: the annotation list under
  \<^verbatim>\<open>/Annots\<close> (a list of references, \<open>None\<close> when the key is absent) and the entry
  under \<^verbatim>\<open>/Contents\<close> (\<open>None\<close> when the page has no content stream).
\<close>

record 'r page =
  annots :: "'r list option"
  contents :: "contents_entry option"

text \<open>
  The loop of \<^verbatim>\<open>_remove_redaction_annots\<close>; \<open>get_object\<close> resolves a reference to its
  annotation dictionary.
\<close>

fun annots_loop ::
  "('r \<Rightarrow> annotation) \<Rightarrow> bool \<Rightarrow> 'r list \<Rightarrow> 'r list \<Rightarrow> nat \<Rightarrow> 'r list \<times> nat" where
  "annots_loop get_object aggressive [] kept removed = (kept, removed)"
| "annots_loop get_object aggressive (annot_ref # rest) kept removed =
     (let annot = get_object annot_ref;
          subtype = annot ''/Subtype''
      in if subtype = Some (NameObject ''/Redact'')
           then annots_loop get_object aggressive rest kept (removed + 1)
         else if aggressive \<and> looks_like_black_box annot
           then annots_loop get_object aggressive rest kept (removed + 1)
         else annots_loop get_object aggressive rest (kept @ [annot_ref]) removed)"

definition remove_redaction_annots ::
  "('r \<Rightarrow> annotation) \<Rightarrow> 'r page \<Rightarrow> bool \<Rightarrow> 'r page \<times> nat" where
  "remove_redaction_annots get_object page aggressive =
     (case annots page of
        None \<Rightarrow> (page, 0)
      | Some annots_obj \<Rightarrow>
          if annots_obj = [] then (page, 0)
          else
            (case annots_loop get_object aggressive annots_obj [] 0 of
               (kept, removed) \<Rightarrow>
                 if kept \<noteq> [] then (page\<lparr>annots := Some kept\<rparr>, removed)
                 else (page\<lparr>annots := None\<rparr>, removed)))"

text \<open>
  \<^verbatim>\<open>_is_black_color(color, tol)\<close> on a tuple of floats (the current fill colour, the only
  argument the program passes): \<^verbatim>\<open>float(c)\<close> is the identity there.
\<close>

definition is_black_color :: "real list \<Rightarrow> real \<Rightarrow> bool" where
  "is_black_color color tol = (if color = [] then False else list_all (\<lambda>c. c \<le> tol) color)"

subsection \<open>The scan of a content stream\<close>

type_synonym color = "real \<times> real \<times> real"

text \<open>The local variables of \<^verbatim>\<open>_remove_black_rectangles\<close> that the loop updates.\<close>

record scan_state =
  remove_indices :: "nat set"
  path_indices :: "nat list"
  path_rects :: "(real \<times> real) list"
  path_has_non_rect :: bool
  fill_color :: color
  color_stack :: "color list"

definition black :: color where
  "black = (0, 0, 0)"

definition init_state :: scan_state where
  "init_state =
     \<lparr>remove_indices = {}, path_indices = [], path_rects = [], path_has_non_rect = False,
      fill_color = black, color_stack = [black]\<rparr>"

definition reset_path :: "scan_state \<Rightarrow> scan_state" where
  "reset_path st = st\<lparr>path_indices := [], path_rects := [], path_has_non_rect := False\<rparr>"

text \<open>\<^verbatim>\<open>float(operands[i])\<close>: IndexError when the operand is missing.\<close>

definition operand_float :: "pdf_object list \<Rightarrow> nat \<Rightarrow> py_exception + real" where
  "operand_float operands i =
     (if i < length operands then py_float (operands ! i) else Inl IndexError)"

text \<open>\<^verbatim>\<open>map(float, operands)\<close>, consumed to the end or to the first failure.\<close>

fun map_float :: "pdf_object list \<Rightarrow> py_exception + real list" where
  "map_float [] = Inr []"
| "map_float (c # cs) =
     (case py_float c of
        Inl e \<Rightarrow> Inl e
      | Inr x \<Rightarrow> (case map_float cs of Inl e \<Rightarrow> Inl e | Inr xs \<Rightarrow> Inr (x # xs)))"

text \<open>
  \<^verbatim>\<open>_x, _y, w, h = map(float, operands)\<close> under \<^verbatim>\<open>try\<close>: the pair \<open>(w, h)\<close> when there
  are exactly four operands and all convert, \<open>None\<close> when anything raises.
\<close>

definition rect_size :: "pdf_object list \<Rightarrow> (real \<times> real) option" where
  "rect_size operands =
     (case map_float operands of
        Inr [x, y, w, h] \<Rightarrow> Some (w, h)
      | _ \<Rightarrow> None)"

definition segment_ops :: "string list" where
  "segment_ops = [''m'', ''l'', ''c'', ''v'', ''y'', ''h'']"

definition paint_ops :: "string list" where
  "paint_ops = [''f'', ''f*'', ''F'', ''B'', ''B*'']"

definition end_ops :: "string list" where
  "end_ops = [''n'', ''W'', ''W*'', ''S'', ''s'']"

text \<open>The decision taken at a paint operator when the path is not empty.\<close>

definition should_remove :: "bool \<Rightarrow> real \<Rightarrow> real \<Rightarrow> scan_state \<Rightarrow> bool" where
  "should_remove aggressive min_width min_height st =
     (case fill_color st of (r, g, b) \<Rightarrow>
        if \<not> path_has_non_rect st \<and> is_black_color [r, g, b] 0.02 then
          (if aggressive then True
           else list_ex (\<lambda>(w, h). w \<ge> min_width \<and> h \<ge> min_height) (path_rects st))
        else False)"

text \<open>One iteration of the loop, on the operation at index \<open>idx\<close>.\<close>

definition step ::
  "bool \<Rightarrow> real \<Rightarrow> real \<Rightarrow> nat \<Rightarrow> operation \<Rightarrow> scan_state \<Rightarrow> py_exception + scan_state" where
  "step aggressive min_width min_height idx op st =
     (case op of (operands, operator) \<Rightarrow>
        if operator = ''q'' then
          Inr (st\<lparr>color_stack := color_stack st @ [fill_color st]\<rparr>)
        else if operator = ''Q'' then
          (if color_stack st \<noteq> [] then
             Inr (st\<lparr>fill_color := last (color_stack st),
                     color_stack := butlast (color_stack st)\<rparr>)
           else Inr (st\<lparr>fill_color := (0, 0, 0)\<rparr>))
        else if operator = ''g'' then
          (case operand_float operands 0 of
             Inl e \<Rightarrow> Inl e
           | Inr gray \<Rightarrow> Inr (st\<lparr>fill_color := (gray, gray, gray)\<rparr>))
        else if operator = ''rg'' then
          (case operand_float operands 0 of
             Inl e \<Rightarrow> Inl e
           | Inr r \<Rightarrow>
               (case operand_float operands 1 of
                  Inl e \<Rightarrow> Inl e
                | Inr g \<Rightarrow>
                    (case operand_float operands 2 of
                       Inl e \<Rightarrow> Inl e
                     | Inr b \<Rightarrow> Inr (st\<lparr>fill_color := (r, g, b)\<rparr>))))
        else if operator = ''re'' then
          (case rect_size operands of
             Some wh \<Rightarrow>
               Inr (st\<lparr>path_indices := path_indices st @ [idx],
                       path_rects := path_rects st @ [wh]\<rparr>)
           | None \<Rightarrow>
               Inr (st\<lparr>path_indices := path_indices st @ [idx],
                       path_has_non_rect := True\<rparr>))
        else if operator \<in> set segment_ops then
          Inr (st\<lparr>path_indices := path_indices st @ [idx], path_has_non_rect := True\<rparr>)
        else if operator \<in> set paint_ops then
          (if path_indices st \<noteq> [] \<and> should_remove aggressive min_width min_height st then
             Inr (reset_path
                    (st\<lparr>remove_indices :=
                          remove_indices st \<union> set (path_indices st) \<union> {idx}\<rparr>))
           else Inr (reset_path st))
        else if operator \<in> set end_ops then Inr (reset_path st)
        else Inr st)"

text \<open>The loop over \<^verbatim>\<open>enumerate(operations)\<close>, from index \<open>idx\<close>; an exception ends it.\<close>

fun scan ::
  "bool \<Rightarrow> real \<Rightarrow> real \<Rightarrow> nat \<Rightarrow> operation list \<Rightarrow> scan_state \<Rightarrow> py_exception + scan_state" where
  "scan aggressive min_width min_height idx [] st = Inr st"
| "scan aggressive min_width min_height idx (op # ops) st =
     (case step aggressive min_width min_height idx op st of
        Inl e \<Rightarrow> Inl e
      | Inr st' \<Rightarrow> scan aggressive min_width min_height (Suc idx) ops st')"

text \<open>\<^verbatim>\<open>[op for i, op in enumerate(operations) if i not in remove_indices]\<close>\<close>

definition filter_ops :: "nat set \<Rightarrow> operation list \<Rightarrow> operation list" where
  "filter_ops rem operations =
     map snd (filter (\<lambda>(i, op). i \<notin> rem) (enumerate 0 operations))"

text \<open>
  \<^verbatim>\<open>_remove_black_rectangles\<close>: the page as it is left and the number returned, or the
  exception that escapes. The page is written only on the last line of the function,
  where \<^verbatim>\<open>/Contents\<close> becomes the \<^verbatim>\<open>ContentStream\<close> built from the filtered operations.
\<close>

definition remove_black_rectangles ::
  "'r page \<Rightarrow> bool \<Rightarrow> real \<Rightarrow> real \<Rightarrow> py_exception + ('r page \<times> nat)" where
  "remove_black_rectangles page aggressive min_width min_height =
     (case contents page of
        None \<Rightarrow> Inr (page, 0)
      | Some entry \<Rightarrow>
          (let operations = operations_of entry in
           case scan aggressive min_width min_height 0 operations init_state of
             Inl e \<Rightarrow> Inl e
           | Inr st \<Rightarrow>
               if remove_indices st = {} then Inr (page, 0)
               else Inr (page\<lparr>contents :=
                            Some (ContentStream (filter_ops (remove_indices st) operations))\<rparr>,
                         card (remove_indices st))))"

section \<open>Notions used to state the properties\<close>

text \<open>The annotation references the loop keeps: neither a redaction marker nor, in
  aggressive mode, a black box.\<close>

definition keeps :: "('r \<Rightarrow> annotation) \<Rightarrow> bool \<Rightarrow> 'r \<Rightarrow> bool" where
  "keeps get_object aggressive r =
     (get_object r ''/Subtype'' \<noteq> Some (NameObject ''/Redact'') \<and>
      \<not> (aggressive \<and> looks_like_black_box (get_object r)))"

text \<open>The annotation references of a page, none when the key is absent.\<close>

definition annots_list :: "'r page \<Rightarrow> 'r list" where
  "annots_list page = (case annots page of None \<Rightarrow> [] | Some xs \<Rightarrow> xs)"

text \<open>The object whose conversion \<^verbatim>\<open>_looks_like_black_box\<close> tries as the opacity.\<close>

definition opacity_of :: "annotation \<Rightarrow> pdf_object" where
  "opacity_of annot = dict_get annot ''/CA'' (dict_get annot ''/ca'' (NumberObject 1))"

text \<open>
  The colour raises inside the \<^verbatim>\<open>try\<close> of \<^verbatim>\<open>_is_black\<close>: it cannot be iterated, or a
  component met before any non-zero one does not convert to a float.
\<close>

definition color_raises :: "pdf_object option \<Rightarrow> bool" where
  "color_raises color =
     (case color of
        None \<Rightarrow> False
      | Some col \<Rightarrow>
          (case py_iter col of
             Inl e \<Rightarrow> True
           | Inr cs \<Rightarrow> (case all_zero cs of Inl e \<Rightarrow> True | Inr b \<Rightarrow> False)))"

text \<open>A stream that holds nothing but save and restore operators.\<close>

definition only_scope_ops :: "operation list \<Rightarrow> bool" where
  "only_scope_ops ops =
     list_all (\<lambda>(operands, operator). operator = ''q'' \<or> operator = ''Q'') ops"

text \<open>An operation that sets \<^verbatim>\<open>path_has_non_rect\<close>: a segment operator, or a rectangle
  whose operands do not unpack into four floats.\<close>

definition non_rect_op :: "operation \<Rightarrow> bool" where
  "non_rect_op op =
     (case op of (operands, operator) \<Rightarrow>
        operator \<in> set segment_ops \<or> (operator = ''re'' \<and> rect_size operands = None))"

text \<open>An operation that ends the current path: a paint operator or a terminator.\<close>

definition path_end_op :: "operation \<Rightarrow> bool" where
  "path_end_op op =
     (case op of (operands, operator) \<Rightarrow>
        operator \<in> set paint_ops \<or> operator \<in> set end_ops)"

text \<open>Scenario A of the specification: \<^verbatim>\<open>q 0 0 0 rg 10 10 100 50 re f Q\<close>.\<close>

definition scenario_a :: "operation list" where
  "scenario_a =
     [([], ''q''),
      ([NumberObject 0, NumberObject 0, NumberObject 0], ''rg''),
      ([NumberObject 10, NumberObject 10, NumberObject 100, NumberObject 50], ''re''),
      ([], ''f''),
      ([], ''Q'')]"

text \<open>Scenario C: \<^verbatim>\<open>q 0 0 0 rg 1 1 2 2 re f Q\<close>.\<close>

definition scenario_c :: "operation list" where
  "scenario_c =
     [([], ''q''),
      ([NumberObject 0, NumberObject 0, NumberObject 0], ''rg''),
      ([NumberObject 1, NumberObject 1, NumberObject 2, NumberObject 2], ''re''),
      ([], ''f''),
      ([], ''Q'')]"

text \<open>A black square whose \<^verbatim>\<open>/CA\<close> entry is a name, not a number.\<close>

definition annot_bad_opacity :: annotation where
  "annot_bad_opacity =
     [''/Subtype'' \<mapsto> NameObject ''/Square'',
      ''/IC'' \<mapsto> ArrayObject [NumberObject 0, NumberObject 0, NumberObject 0],
      ''/CA'' \<mapsto> NameObject ''/Opaque'']"

text \<open>A square whose interior colour holds a name where a number belongs.\<close>

definition annot_bad_color :: annotation where
  "annot_bad_color =
     [''/Subtype'' \<mapsto> NameObject ''/Square'',
      ''/IC'' \<mapsto> ArrayObject [NumberObject 0, NameObject ''/Black'', NumberObject 0]]"

text \<open>A stamp whose only colour entry is an empty array.\<close>

definition annot_empty_color :: annotation where
  "annot_empty_color =
     [''/Subtype'' \<mapsto> NameObject ''/Stamp'', ''/C'' \<mapsto> ArrayObject []]"

text \<open>A stream with a removable rectangle before and after a path that mixes a rectangle
  with a move: \<^verbatim>\<open>0 0 10 10 re f 10 10 100 50 re 0 0 m f 0 0 10 10 re f\<close>.\<close>

definition boxes_before :: "operation list" where
  "boxes_before =
     [([NumberObject 0, NumberObject 0, NumberObject 10, NumberObject 10], ''re''), ([], ''f'')]"

definition mixed_path :: "operation list" where
  "mixed_path =
     [([NumberObject 10, NumberObject 10, NumberObject 100, NumberObject 50], ''re''),
      ([NumberObject 0, NumberObject 0], ''m'')]"

definition boxes_after :: "operation list" where
  "boxes_after =
     [([NumberObject 0, NumberObject 0, NumberObject 10, NumberObject 10], ''re''), ([], ''f'')]"

section \<open>Lemmas on the annotation filter\<close>

lemma annots_loop_filter:
  "annots_loop g ag xs kept removed =
     (kept @ filter (keeps g ag) xs, removed + length (filter (\<lambda>r. \<not> keeps g ag r) xs))"
  by (induction xs arbitrary: kept removed) (auto simp: keeps_def Let_def)

lemma remove_redaction_annots_eq:
  "remove_redaction_annots g page ag =
     (if annots page = None \<or> annots page = Some [] then (page, 0)
      else (page\<lparr>annots := (if filter (keeps g ag) (annots_list page) = [] then None
                               else Some (filter (keeps g ag) (annots_list page)))\<rparr>,
            length (filter (\<lambda>r. \<not> keeps g ag r) (annots_list page))))"
  by (auto simp: remove_redaction_annots_def annots_loop_filter annots_list_def
      split: option.splits)

lemma annots_list_result:
  "annots_list (fst (remove_redaction_annots g page ag)) =
     filter (keeps g ag) (annots_list page)"
  by (auto simp: remove_redaction_annots_eq annots_list_def split: option.splits)

lemma looks_like_black_box_eq:
  "looks_like_black_box annot =
     (annot ''/Subtype'' \<in> set (map (\<lambda>s. Some (NameObject s)) box_subtypes) \<and>
      is_black (py_or (annot ''/IC'') (annot ''/C'')) \<and>
      (case py_float (opacity_of annot) of Inr x \<Rightarrow> \<not> x < 0.9 | Inl e \<Rightarrow> True))"
  by (auto simp: looks_like_black_box_def opacity_of_def Let_def split: sum.splits)

lemma all_zero_components:
  "\<forall>c\<in>set cs. py_float c = Inr 0 \<Longrightarrow> all_zero cs = Inr True"
  by (induction cs) simp_all

lemma is_black_all_zero_array:
  "\<forall>c\<in>set cs. py_float c = Inr 0 \<Longrightarrow> is_black (Some (ArrayObject cs))"
  by (simp add: is_black_def all_zero_components)

lemma color_raises_not_black:
  "color_raises color \<Longrightarrow> \<not> is_black color"
  by (auto simp: color_raises_def is_black_def split: option.splits sum.splits)

lemma box_subtype_not_redact:
  "v \<in> set (map (\<lambda>s. Some (NameObject s)) box_subtypes) \<Longrightarrow>
   v \<noteq> Some (NameObject ''/Redact'')"
  by (auto simp: box_subtypes_def)

section \<open>Lemmas on the scan\<close>

lemmas step_simps =
  step_def operand_float_def rect_size_def segment_ops_def paint_ops_def end_ops_def
  should_remove_def is_black_color_def reset_path_def

lemma scan_scenario_a:
  "scan True mw mh 0 scenario_a init_state = Inr (init_state\<lparr>remove_indices := {2, 3}\<rparr>)"
  by (simp add: scenario_a_def init_state_def black_def step_simps
      numeral_2_eq_2 numeral_3_eq_3 insert_commute)

lemma filter_scenario_a:
  "filter_ops {2, 3} scenario_a =
     [([], ''q''), ([NumberObject 0, NumberObject 0, NumberObject 0], ''rg''), ([], ''Q'')]"
  by (simp add: filter_ops_def scenario_a_def enumerate_eq_zip upt_rec)

lemma scan_scenario_c:
  "scan False 5 5 0 scenario_c init_state = Inr init_state"
  by (simp add: scenario_c_def init_state_def black_def step_simps)

lemma scan_append:
  "scan ag mw mh idx (xs @ ys) st =
     (case scan ag mw mh idx xs st of
        Inl e \<Rightarrow> Inl e
      | Inr st' \<Rightarrow> scan ag mw mh (idx + length xs) ys st')"
  by (induction xs arbitrary: idx st) (auto split: sum.splits)

lemma step_total:
  assumes "snd op \<noteq> ''g''" and "snd op \<noteq> ''rg''"
  shows "\<exists>st'. step ag mw mh idx op st = Inr st'"
  using assms by (cases op) (simp add: step_def split: option.splits)

lemma scan_total:
  "list_all (\<lambda>op. snd op \<noteq> ''g'' \<and> snd op \<noteq> ''rg'') ops \<Longrightarrow>
   \<exists>st'. scan ag mw mh idx ops st = Inr st'"
proof (induction ops arbitrary: idx st)
  case Nil
  then show ?case by simp
next
  case (Cons op ops)
  then obtain st1 where "step ag mw mh idx op st = Inr st1"
    using step_total[of op ag mw mh idx st] by auto
  with Cons show ?case by simp
qed

lemma step_save:
  "step ag mw mh idx (operands, ''q'') st = Inr (st\<lparr>color_stack := color_stack st @ [fill_color st]\<rparr>)"
  by (simp add: step_def)

lemma step_restore:
  "step ag mw mh idx (operands, ''Q'') st =
     (if color_stack st \<noteq> [] then
        Inr (st\<lparr>fill_color := last (color_stack st), color_stack := butlast (color_stack st)\<rparr>)
      else Inr (st\<lparr>fill_color := (0, 0, 0)\<rparr>))"
  by (simp add: step_def)

lemma step_gray:
  "step ag mw mh idx (operands, ''g'') st =
     (case operand_float operands 0 of
        Inl e \<Rightarrow> Inl e
      | Inr gray \<Rightarrow> Inr (st\<lparr>fill_color := (gray, gray, gray)\<rparr>))"
  by (simp add: step_def)

lemma step_rgb:
  "step ag mw mh idx (operands, ''rg'') st =
     (case operand_float operands 0 of
        Inl e \<Rightarrow> Inl e
      | Inr r \<Rightarrow>
          (case operand_float operands 1 of
             Inl e \<Rightarrow> Inl e
           | Inr g \<Rightarrow>
               (case operand_float operands 2 of
                  Inl e \<Rightarrow> Inl e
                | Inr b \<Rightarrow> Inr (st\<lparr>fill_color := (r, g, b)\<rparr>))))"
  by (simp add: step_def)

lemma step_rect:
  "step ag mw mh idx (operands, ''re'') st =
     (case rect_size operands of
        Some wh \<Rightarrow>
          Inr (st\<lparr>path_indices := path_indices st @ [idx], path_rects := path_rects st @ [wh]\<rparr>)
      | None \<Rightarrow>
          Inr (st\<lparr>path_indices := path_indices st @ [idx], path_has_non_rect := True\<rparr>))"
  by (simp add: step_def)

lemma segment_not_earlier:
  "operator \<in> set segment_ops \<Longrightarrow> operator \<notin> {''q'', ''Q'', ''g'', ''rg'', ''re''}"
  by (auto simp: segment_ops_def)

lemma paint_not_earlier:
  "operator \<in> set paint_ops \<Longrightarrow>
   operator \<notin> {''q'', ''Q'', ''g'', ''rg'', ''re''} \<and> operator \<notin> set segment_ops"
  by (auto simp: segment_ops_def paint_ops_def)

lemma end_not_earlier:
  "operator \<in> set end_ops \<Longrightarrow>
   operator \<notin> {''q'', ''Q'', ''g'', ''rg'', ''re''} \<and> operator \<notin> set segment_ops \<and>
   operator \<notin> set paint_ops"
  by (auto simp: segment_ops_def paint_ops_def end_ops_def)

lemma step_segment:
  "operator \<in> set segment_ops \<Longrightarrow>
   step ag mw mh idx (operands, operator) st =
     Inr (st\<lparr>path_indices := path_indices st @ [idx], path_has_non_rect := True\<rparr>)"
  using segment_not_earlier[of operator] by (simp add: step_def)

lemma step_paint:
  "operator \<in> set paint_ops \<Longrightarrow>
   step ag mw mh idx (operands, operator) st =
     (if path_indices st \<noteq> [] \<and> should_remove ag mw mh st then
        Inr (reset_path
               (st\<lparr>remove_indices := remove_indices st \<union> set (path_indices st) \<union> {idx}\<rparr>))
      else Inr (reset_path st))"
  using paint_not_earlier[of operator] by (simp add: step_def)

lemma step_end:
  "operator \<in> set end_ops \<Longrightarrow>
   step ag mw mh idx (operands, operator) st = Inr (reset_path st)"
  using end_not_earlier[of operator] by (simp add: step_def)

lemma step_other:
  "operator \<notin> {''q'', ''Q'', ''g'', ''rg'', ''re''} \<Longrightarrow> operator \<notin> set segment_ops \<Longrightarrow>
   operator \<notin> set paint_ops \<Longrightarrow> operator \<notin> set end_ops \<Longrightarrow>
   step ag mw mh idx (operands, operator) st = Inr st"
  by (simp add: step_def)

lemma operation_cases [case_names save restore gray rgb rect segment paint ends other]:
  obtains operands where "op = (operands, ''q'')"
  | operands where "op = (operands, ''Q'')"
  | operands where "op = (operands, ''g'')"
  | operands where "op = (operands, ''rg'')"
  | operands where "op = (operands, ''re'')"
  | operands operator where "op = (operands, operator)" "operator \<in> set segment_ops"
  | operands operator where "op = (operands, operator)" "operator \<in> set paint_ops"
  | operands operator where "op = (operands, operator)" "operator \<in> set end_ops"
  | operands operator where "op = (operands, operator)"
      "operator \<notin> {''q'', ''Q'', ''g'', ''rg'', ''re''}" "operator \<notin> set segment_ops"
      "operator \<notin> set paint_ops" "operator \<notin> set end_ops"
  by (cases op) blast

lemma should_remove_mono:
  "should_remove False mw mh st \<Longrightarrow> should_remove True mw mh (st\<lparr>remove_indices := R\<rparr>)"
  by (auto simp: should_remove_def split: prod.splits if_splits)

lemma step_mode_mono:
  assumes "remove_indices st \<subseteq> R"
  shows "case step False mw mh idx op st of
           Inl e \<Rightarrow> step True mw mh idx op (st\<lparr>remove_indices := R\<rparr>) = Inl e
         | Inr st' \<Rightarrow> (\<exists>R'. remove_indices st' \<subseteq> R' \<and>
               step True mw mh idx op (st\<lparr>remove_indices := R\<rparr>) = Inr (st'\<lparr>remove_indices := R'\<rparr>))"
proof (cases op rule: operation_cases)
  case (save operands)
  then show ?thesis using assms by (auto simp: step_save intro!: exI[of _ R])
next
  case (restore operands)
  then show ?thesis using assms by (auto simp: step_restore intro!: exI[of _ R])
next
  case (gray operands)
  then show ?thesis using assms by (auto simp: step_gray split: sum.splits intro!: exI[of _ R])
next
  case (rgb operands)
  then show ?thesis using assms by (auto simp: step_rgb split: sum.splits intro!: exI[of _ R])
next
  case (rect operands)
  then show ?thesis using assms by (auto simp: step_rect split: option.splits intro!: exI[of _ R])
next
  case (segment operands operator)
  then show ?thesis using assms by (auto simp: step_segment intro!: exI[of _ R])
next
  case (paint operands operator)
  show ?thesis
  proof (cases "path_indices st \<noteq> [] \<and> should_remove False mw mh st")
    case True
    then show ?thesis using assms paint should_remove_mono[of mw mh st R]
      by (auto simp: step_paint reset_path_def
          intro!: exI[of _ "R \<union> set (path_indices st) \<union> {idx}"])
  next
    case False
    show ?thesis
    proof (cases "path_indices st \<noteq> [] \<and> should_remove True mw mh (st\<lparr>remove_indices := R\<rparr>)")
      case True
      then show ?thesis using False assms paint
        by (auto simp: step_paint reset_path_def
            intro!: exI[of _ "R \<union> set (path_indices st) \<union> {idx}"])
    next
      case F2: False
      then show ?thesis using False assms paint
        by (auto simp: step_paint reset_path_def intro!: exI[of _ R])
    qed
  qed
next
  case (ends operands operator)
  then show ?thesis using assms by (auto simp: step_end reset_path_def intro!: exI[of _ R])
next
  case (other operands operator)
  then show ?thesis using assms by (auto simp: step_other intro!: exI[of _ R])
qed


lemma scan_mode_mono:
  "remove_indices st \<subseteq> R \<Longrightarrow>
   (case scan False mw mh idx ops st of
      Inl e \<Rightarrow> scan True mw mh idx ops (st\<lparr>remove_indices := R\<rparr>) = Inl e
    | Inr st' \<Rightarrow> (\<exists>R'. remove_indices st' \<subseteq> R' \<and>
          scan True mw mh idx ops (st\<lparr>remove_indices := R\<rparr>) = Inr (st'\<lparr>remove_indices := R'\<rparr>)))"
proof (induction ops arbitrary: idx st R)
  case Nil
  then show ?case by (auto intro!: exI[of _ R])
next
  case (Cons op ops)
  show ?case
  proof (cases "step False mw mh idx op st")
    case (Inl e)
    then show ?thesis
      using step_mode_mono[OF Cons.prems, of mw mh idx op] by simp
  next
    case (Inr st1)
    then obtain R1 where R1: "remove_indices st1 \<subseteq> R1"
      and s1: "step True mw mh idx op (st\<lparr>remove_indices := R\<rparr>) = Inr (st1\<lparr>remove_indices := R1\<rparr>)"
      using step_mode_mono[OF Cons.prems, of mw mh idx op] by auto
    have e1: "scan False mw mh idx (op # ops) st = scan False mw mh (Suc idx) ops st1"
      by (simp add: Inr)
    have e2: "scan True mw mh idx (op # ops) (st\<lparr>remove_indices := R\<rparr>) =
        scan True mw mh (Suc idx) ops (st1\<lparr>remove_indices := R1\<rparr>)"
      by (simp add: s1)
    show ?thesis
      unfolding e1 e2 by (rule Cons.IH[OF R1])
  qed
qed

lemma step_removed_bound:
  assumes "step ag mw mh idx op st = Inr st'"
  shows "remove_indices st' \<subseteq> remove_indices st \<union> set (path_indices st) \<union> {idx} \<and>
         set (path_indices st') \<subseteq> set (path_indices st) \<union> {idx}"
proof (cases op rule: operation_cases)
  case (save operands)
  then show ?thesis using assms by (auto simp: step_save)
next
  case (restore operands)
  then show ?thesis using assms by (auto simp: step_restore split: if_splits)
next
  case (gray operands)
  then show ?thesis using assms by (auto simp: step_gray split: sum.splits)
next
  case (rgb operands)
  then show ?thesis using assms by (auto simp: step_rgb split: sum.splits)
next
  case (rect operands)
  then show ?thesis using assms by (auto simp: step_rect split: option.splits)
next
  case (segment operands operator)
  then show ?thesis using assms by (auto simp: step_segment)
next
  case (paint operands operator)
  then show ?thesis using assms by (auto simp: step_paint reset_path_def split: if_splits)
next
  case (ends operands operator)
  then show ?thesis using assms by (auto simp: step_end reset_path_def)
next
  case (other operands operator)
  then show ?thesis using assms by (auto simp: step_other)
qed

lemma scan_removed_bound:
  "scan ag mw mh idx ops st = Inr st' \<Longrightarrow>
   remove_indices st' \<subseteq> remove_indices st \<union> set (path_indices st) \<union> {idx ..< idx + length ops} \<and>
   set (path_indices st') \<subseteq> set (path_indices st) \<union> {idx ..< idx + length ops}"
proof (induction ops arbitrary: idx st)
  case Nil
  then show ?case by simp
next
  case (Cons op ops)
  then obtain st1 where s1: "step ag mw mh idx op st = Inr st1"
    and r: "scan ag mw mh (Suc idx) ops st1 = Inr st'"
    by (auto split: sum.splits)
  have b1: "remove_indices st1 \<subseteq> remove_indices st \<union> set (path_indices st) \<union> {idx}"
    and p1: "set (path_indices st1) \<subseteq> set (path_indices st) \<union> {idx}"
    using step_removed_bound[OF s1] by simp_all
  have b2: "remove_indices st' \<subseteq>
      remove_indices st1 \<union> set (path_indices st1) \<union> {Suc idx ..< Suc idx + length ops}"
    and p2: "set (path_indices st') \<subseteq> set (path_indices st1) \<union> {Suc idx ..< Suc idx + length ops}"
    using Cons.IH[OF r] by simp_all
  have "{idx} \<union> {Suc idx ..< Suc idx + length ops} = {idx ..< idx + length (op # ops)}"
    by auto
  then show ?case using b1 p1 b2 p2 by blast
qed

lemma step_inside_path:
  assumes "step ag mw mh idx op st = Inr st'" and "\<not> path_end_op op"
  shows "remove_indices st' = remove_indices st \<and>
         (path_has_non_rect st \<or> non_rect_op op \<longrightarrow> path_has_non_rect st')"
proof (cases op rule: operation_cases)
  case (save operands)
  then show ?thesis using assms by (auto simp: step_save non_rect_op_def segment_ops_def)
next
  case (restore operands)
  then show ?thesis using assms
    by (auto simp: step_restore non_rect_op_def segment_ops_def split: if_splits)
next
  case (gray operands)
  then show ?thesis using assms
    by (auto simp: step_gray non_rect_op_def segment_ops_def split: sum.splits)
next
  case (rgb operands)
  then show ?thesis using assms
    by (auto simp: step_rgb non_rect_op_def segment_ops_def split: sum.splits)
next
  case (rect operands)
  then show ?thesis using assms
    by (auto simp: step_rect non_rect_op_def segment_ops_def split: option.splits)
next
  case (segment operands operator)
  then show ?thesis using assms by (auto simp: step_segment)
next
  case (paint operands operator)
  then show ?thesis using assms by (simp add: path_end_op_def)
next
  case (ends operands operator)
  then show ?thesis using assms by (simp add: path_end_op_def)
next
  case (other operands operator)
  then show ?thesis using assms by (auto simp: step_other non_rect_op_def)
qed

lemma scan_inside_path:
  "scan ag mw mh idx ops st = Inr st' \<Longrightarrow> \<forall>op\<in>set ops. \<not> path_end_op op \<Longrightarrow>
   remove_indices st' = remove_indices st \<and>
   (path_has_non_rect st \<or> (\<exists>op\<in>set ops. non_rect_op op) \<longrightarrow> path_has_non_rect st')"
proof (induction ops arbitrary: idx st)
  case Nil
  then show ?case by simp
next
  case (Cons op ops)
  then obtain st1 where s1: "step ag mw mh idx op st = Inr st1"
    and r: "scan ag mw mh (Suc idx) ops st1 = Inr st'"
    by (auto split: sum.splits)
  have ne: "\<not> path_end_op op" and nes: "\<forall>op\<in>set ops. \<not> path_end_op op"
    using Cons.prems(2) by simp_all
  show ?case
    using step_inside_path[OF s1 ne] Cons.IH[OF r nes] by auto
qed

lemma step_paint_non_rect:
  "operator \<in> set paint_ops \<Longrightarrow> path_has_non_rect st \<Longrightarrow>
   step ag mw mh idx (operands, operator) st = Inr (reset_path st)"
  by (simp add: step_paint should_remove_def split: prod.splits)

section \<open>The claims\<close>

text \<open>
  C9. The black test of the content-stream scan, at the tolerance 0.02 the scan passes,
  accepts the fill colour (0.02, 0.02, 0.02) and rejects (0.021, 0, 0).
\<close>

theorem tolerance_boundary:
  "is_black_color [0.02, 0.02, 0.02] 0.02 \<and> \<not> is_black_color [0.021, 0, 0] 0.02 \<and>
   should_remove True mw mh (init_state\<lparr>fill_color := (0.02, 0.02, 0.02)\<rparr>) \<and>
   \<not> should_remove True mw mh (init_state\<lparr>fill_color := (0.021, 0, 0)\<rparr>)"
  by (simp add: is_black_color_def should_remove_def init_state_def)

text \<open>
  C2 (as amended). On scenario A in aggressive mode the function removes the rectangle
  and the fill operator and returns 2; the stream that remains is
  \<^verbatim>\<open>q 0 0 0 rg Q\<close>: the colour operator stays with the save and restore pair.
\<close>

theorem scenario_a_removes_re_and_f:
  "scan True mw mh 0 scenario_a init_state = Inr (init_state\<lparr>remove_indices := {2, 3}\<rparr>) \<and>
   remove_black_rectangles \<lparr>annots = a, contents = Some (Stored scenario_a)\<rparr> True mw mh =
     Inr (\<lparr>annots = a, contents = Some (ContentStream [([], ''q''),
            ([NumberObject 0, NumberObject 0, NumberObject 0], ''rg''), ([], ''Q'')])\<rparr>, 2)"
  by (simp add: remove_black_rectangles_def scan_scenario_a filter_scenario_a)

text \<open>
  C2 as the claim words it fails: the output of scenario A is not empty apart from the
  save and restore pair, since \<^verbatim>\<open>0 0 0 rg\<close> is still there.
\<close>

theorem scenario_a_output_counterexample:
  "remove_black_rectangles
       \<lparr>annots = (None :: nat list option), contents = Some (Stored scenario_a)\<rparr> True 5 5 =
     Inr (\<lparr>annots = None, contents = Some (ContentStream [([], ''q''),
            ([NumberObject 0, NumberObject 0, NumberObject 0], ''rg''), ([], ''Q'')])\<rparr>, 2)
   \<and> \<not> only_scope_ops [([], ''q''),
            ([NumberObject 0, NumberObject 0, NumberObject 0], ''rg''), ([], ''Q'')]"
  by (simp add: remove_black_rectangles_def scan_scenario_a filter_scenario_a
      only_scope_ops_def)

text \<open>
  C5. The annotation filter is idempotent: run again, in the same mode, on the page a
  first run leaves, it removes nothing and returns that page unchanged.
\<close>

theorem remove_redaction_annots_idempotent:
  "remove_redaction_annots g (fst (remove_redaction_annots g page ag)) ag =
     (fst (remove_redaction_annots g page ag), 0)"
  by (auto simp: remove_redaction_annots_eq annots_list_def)

text \<open>
  C4 (as amended). For a page whose annotation list is absent or non-empty on entry,
  the list is absent or non-empty afterwards: it is removed when nothing is kept and
  otherwise replaced by the kept references in their original order; the number
  returned is the number of references dropped.
\<close>

theorem annots_absent_or_nonempty:
  assumes "annots page \<noteq> Some []"
  shows "annots (fst (remove_redaction_annots g page ag)) \<noteq> Some [] \<and>
         annots (fst (remove_redaction_annots g page ag)) =
           (if filter (keeps g ag) (annots_list page) = [] then None
            else Some (filter (keeps g ag) (annots_list page))) \<and>
         snd (remove_redaction_annots g page ag) =
           length (annots_list page) - length (filter (keeps g ag) (annots_list page))"
  using assms sum_length_filter_compl[of "keeps g ag" "annots_list page"]
  by (auto simp: remove_redaction_annots_eq annots_list_def)

theorem annots_absent_or_nonempty_witness:
  "annots (fst (remove_redaction_annots (\<lambda>r :: nat. annot_bad_opacity)
       \<lparr>annots = Some [4], contents = None\<rparr> True)) = None \<and>
   annots (fst (remove_redaction_annots (\<lambda>r :: nat. annot_bad_opacity)
       \<lparr>annots = Some [4], contents = None\<rparr> False)) = Some [4]"
proof -
  have ne: "annots \<lparr>annots = Some [4 :: nat], contents = None\<rparr> \<noteq> Some []"
    by simp
  have kt: "\<not> keeps (\<lambda>r :: nat. annot_bad_opacity) True 4"
    by (simp add: keeps_def looks_like_black_box_eq opacity_of_def dict_get_def
        annot_bad_opacity_def box_subtypes_def is_black_def py_or_def)
  have kf: "keeps (\<lambda>r :: nat. annot_bad_opacity) False 4"
    by (simp add: keeps_def annot_bad_opacity_def)
  show ?thesis
    using annots_absent_or_nonempty [OF ne, of "\<lambda>r. annot_bad_opacity" True]
      annots_absent_or_nonempty [OF ne, of "\<lambda>r. annot_bad_opacity" False] kt kf
    by (simp add: annots_list_def)
qed

text \<open>
  C4 as the claim words it fails: a page that enters with an empty annotation list
  leaves with the same empty list, through the early return.
\<close>

theorem empty_annots_counterexample:
  "remove_redaction_annots (\<lambda>r :: nat. Map.empty) \<lparr>annots = Some [], contents = None\<rparr> True =
     (\<lparr>annots = Some [], contents = None\<rparr>, 0)"
  by (simp add: remove_redaction_annots_def)

text \<open>
  C3. Whatever the operations and the thresholds, the conservative and the aggressive
  scan end alike (both raise the same exception, or both return), and every index the
  conservative scan marks for removal is marked by the aggressive scan.
\<close>

theorem aggressive_superset:
  "case scan False mw mh 0 ops init_state of
     Inl e \<Rightarrow> scan True mw mh 0 ops init_state = Inl e
   | Inr sc \<Rightarrow>
       (\<exists>sa. scan True mw mh 0 ops init_state = Inr sa \<and>
             remove_indices sc \<subseteq> remove_indices sa)"
proof -
  have "init_state\<lparr>remove_indices := remove_indices init_state\<rparr> = init_state"
    by simp
  then show ?thesis
    using scan_mode_mono[of init_state "remove_indices init_state" mw mh 0 ops]
    by (auto split: sum.splits)
qed


text \<open>
  C6. In both modes: when a fill operator paints a path (the operations since the path
  last ended) that holds a segment operator m, l, c, v, y or h, or a rectangle whose
  operands do not convert, no index from the start of that path up to the fill operator
  is marked for removal, whatever the fill colour and the rectangles recorded.
\<close>

theorem non_rect_path_never_removed:
  assumes run: "scan ag mw mh 0 (pre @ path @ (operands, operator) # post) init_state = Inr st"
    and paint: "operator \<in> set paint_ops"
    and inside: "\<forall>op\<in>set path. \<not> path_end_op op"
    and nonrect: "\<exists>op\<in>set path. non_rect_op op"
  shows "remove_indices st \<inter> {length pre .. length pre + length path} = {}"
proof -
  from run obtain s1 where s1: "scan ag mw mh 0 pre init_state = Inr s1"
    and r1: "scan ag mw mh (length pre) (path @ (operands, operator) # post) s1 = Inr st"
    by (auto simp: scan_append split: sum.splits)
  from r1 obtain s2 where s2: "scan ag mw mh (length pre) path s1 = Inr s2"
    and r2: "scan ag mw mh (length pre + length path) ((operands, operator) # post) s2 = Inr st"
    by (auto simp: scan_append split: sum.splits)
  have rem2: "remove_indices s2 = remove_indices s1" and nr2: "path_has_non_rect s2"
    using scan_inside_path[OF s2 inside] nonrect by auto
  have s3: "step ag mw mh (length pre + length path) (operands, operator) s2 = Inr (reset_path s2)"
    by (rule step_paint_non_rect[OF paint nr2])
  have r3: "scan ag mw mh (Suc (length pre + length path)) post (reset_path s2) = Inr st"
    using r2 by (simp add: s3)
  have b1: "remove_indices s1 \<subseteq> {0 ..< length pre}"
    using scan_removed_bound[OF s1] by (simp add: init_state_def)
  have b3: "remove_indices st \<subseteq> remove_indices s2 \<union>
      {Suc (length pre + length path) ..< Suc (length pre + length path) + length post}"
    using scan_removed_bound[OF r3] by (simp add: reset_path_def)
  have "remove_indices st \<subseteq> {0 ..< length pre} \<union>
      {Suc (length pre + length path) ..< Suc (length pre + length path) + length post}"
    using b1 b3 rem2 by blast
  then show ?thesis by auto
qed

theorem non_rect_path_never_removed_witness:
  "scan True 5 5 0 (boxes_before @ mixed_path @ ([], ''f'') # boxes_after) init_state =
     Inr (init_state\<lparr>remove_indices := {0, 1, 5, 6}\<rparr>) \<and>
   remove_indices (init_state\<lparr>remove_indices := {0, 1, 5, 6}\<rparr>) \<inter>
     {length boxes_before .. length boxes_before + length mixed_path} = {}"
proof -
  have run: "scan True 5 5 0 (boxes_before @ mixed_path @ ([], ''f'') # boxes_after) init_state =
     Inr (init_state\<lparr>remove_indices := {0, 1, 5, 6}\<rparr>)"
    by (simp add: boxes_before_def mixed_path_def boxes_after_def init_state_def black_def
        step_simps eval_nat_numeral insert_commute)
  have paint: "''f'' \<in> set paint_ops"
    by (simp add: paint_ops_def)
  have inside: "\<forall>op\<in>set mixed_path. \<not> path_end_op op"
    by (simp add: mixed_path_def path_end_op_def paint_ops_def end_ops_def)
  have nonrect: "\<exists>op\<in>set mixed_path. non_rect_op op"
    by (simp add: mixed_path_def non_rect_op_def segment_ops_def)
  show ?thesis
    using non_rect_path_never_removed [OF run paint inside nonrect] run by blast
qed

text \<open>
  C7. A page without a content stream is returned as it is, with the count 0. A page
  whose scan returns with no index marked is returned as it is, with the count 0: its
  \<^verbatim>\<open>/Contents\<close> entry is the object it was, not a \<^verbatim>\<open>ContentStream\<close> written back.
\<close>

theorem no_marks_no_rewrite:
  assumes "contents page = None \<or>
           (\<exists>entry st. contents page = Some entry \<and>
              scan aggressive min_width min_height 0 (operations_of entry) init_state = Inr st \<and>
              remove_indices st = {})"
  shows "remove_black_rectangles page aggressive min_width min_height = Inr (page, 0)"
  using assms by (auto simp: remove_black_rectangles_def)

theorem no_marks_no_rewrite_witness:
  "remove_black_rectangles \<lparr>annots = Some [1 :: nat], contents = None\<rparr> True 5 5 =
     Inr (\<lparr>annots = Some [1], contents = None\<rparr>, 0) \<and>
   remove_black_rectangles
       \<lparr>annots = Some [1 :: nat], contents = Some (Stored scenario_c)\<rparr> False 5 5 =
     Inr (\<lparr>annots = Some [1], contents = Some (Stored scenario_c)\<rparr>, 0) \<and>
   \<lparr>annots = Some [1 :: nat], contents = Some (Stored scenario_c)\<rparr> \<noteq>
     \<lparr>annots = Some [1], contents = Some (ContentStream scenario_c)\<rparr>"
proof -
  have a: "contents \<lparr>annots = Some [1 :: nat], contents = None\<rparr> = None \<or>
           (\<exists>entry st. contents \<lparr>annots = Some [1 :: nat], contents = None\<rparr> = Some entry \<and>
              scan True 5 5 0 (operations_of entry) init_state = Inr st \<and>
              remove_indices st = {})"
    by simp
  have "remove_indices init_state = {}"
    by (simp add: init_state_def)
  then have b:
    "contents \<lparr>annots = Some [1 :: nat], contents = Some (Stored scenario_c)\<rparr> = None \<or>
     (\<exists>entry st.
        contents \<lparr>annots = Some [1 :: nat], contents = Some (Stored scenario_c)\<rparr> = Some entry \<and>
        scan False 5 5 0 (operations_of entry) init_state = Inr st \<and>
        remove_indices st = {})"
    using scan_scenario_c by simp
  show ?thesis
    using no_marks_no_rewrite [OF a] no_marks_no_rewrite [OF b] by simp
qed

text \<open>
  C8. A restore operator met with an empty colour stack sets the fill colour to black,
  and a restore operator never raises; the scan of a stream returns a state whenever
  the stream holds no colour operator g or rg, however its saves and restores are
  balanced.
\<close>

theorem restore_on_empty_stack:
  "(color_stack st = [] \<longrightarrow>
      step ag mw mh idx (operands, ''Q'') st = Inr (st\<lparr>fill_color := black\<rparr>)) \<and>
   (\<exists>st'. step ag mw mh idx (operands, ''Q'') st = Inr st') \<and>
   (list_all (\<lambda>op. snd op \<noteq> ''g'' \<and> snd op \<noteq> ''rg'') ops \<longrightarrow>
      (\<exists>st'. scan ag mw mh idx ops st = Inr st'))"
  using scan_total[of ops ag mw mh idx st] by (simp add: step_restore black_def)

theorem restore_on_empty_stack_witness:
  "step True 5 5 2 ([], ''Q'') (init_state\<lparr>color_stack := []\<rparr>) =
     Inr (init_state\<lparr>color_stack := [], fill_color := black\<rparr>) \<and>
   (\<exists>st'. scan True 5 5 0 [([], ''Q''), ([], ''Q''), ([], ''Q''), ([], ''q''), ([], ''Q'')]
            init_state = Inr st')"
proof -
  have e: "color_stack (init_state\<lparr>color_stack := []\<rparr>) = []"
    by simp
  have l: "list_all (\<lambda>op. snd op \<noteq> ''g'' \<and> snd op \<noteq> ''rg'')
             [([], ''Q''), ([], ''Q''), ([], ''Q''), ([], ''q''), ([] :: pdf_object list, ''Q'')]"
    by simp
  have a: "step True 5 5 2 ([], ''Q'') (init_state\<lparr>color_stack := []\<rparr>) =
      Inr (init_state\<lparr>color_stack := [], fill_color := black\<rparr>)"
    using restore_on_empty_stack [of "init_state\<lparr>color_stack := []\<rparr>" True 5 5 2 "[]" "[]"] e
    by blast
  have b: "\<exists>st'. scan True 5 5 0 [([], ''Q''), ([], ''Q''), ([], ''Q''), ([], ''q''), ([], ''Q'')]
            init_state = Inr st'"
    using restore_on_empty_stack [of init_state True 5 5 0 "[]"
        "[([], ''Q''), ([], ''Q''), ([], ''Q''), ([], ''q''), ([], ''Q'')]"] l
    by blast
  show ?thesis
    using a b by (rule conjI)
qed

text \<open>
  C1 (as amended). Take an annotation of a black-box subtype. If its colour is an array
  whose components all convert to zero and its opacity does not convert to a number,
  the opacity check is skipped: the annotation looks like a black box, aggressive mode
  removes it and conservative mode keeps it. If instead its colour raises in the black
  test (a component does not convert, or the colour cannot be iterated), the annotation
  does not look like a black box and both modes keep it, whatever its opacity.
\<close>

theorem unparsable_opacity_is_ignored:
  assumes "annot ''/Subtype'' \<in> set (map (\<lambda>s. Some (NameObject s)) box_subtypes)"
    and "get_object r = annot"
    and "r \<in> set (annots_list page)"
  shows "(py_or (annot ''/IC'') (annot ''/C'') = Some (ArrayObject cs) \<and>
          (\<forall>c\<in>set cs. py_float c = Inr 0) \<and>
          py_float (opacity_of annot) = Inl e \<longrightarrow>
            looks_like_black_box annot \<and>
            r \<notin> set (annots_list (fst (remove_redaction_annots get_object page True))) \<and>
            r \<in> set (annots_list (fst (remove_redaction_annots get_object page False)))) \<and>
         (color_raises (py_or (annot ''/IC'') (annot ''/C'')) \<longrightarrow>
            \<not> looks_like_black_box annot \<and>
            r \<in> set (annots_list (fst (remove_redaction_annots get_object page True))) \<and>
            r \<in> set (annots_list (fst (remove_redaction_annots get_object page False))))"
proof (intro conjI impI)
  assume h: "py_or (annot ''/IC'') (annot ''/C'') = Some (ArrayObject cs) \<and>
      (\<forall>c\<in>set cs. py_float c = Inr 0) \<and> py_float (opacity_of annot) = Inl e"
  then have blk: "is_black (py_or (annot ''/IC'') (annot ''/C''))"
    by (simp add: is_black_all_zero_array)
  show box: "looks_like_black_box annot"
    using assms(1) blk h by (simp add: looks_like_black_box_eq)
  show "r \<notin> set (annots_list (fst (remove_redaction_annots get_object page True)))"
    using box assms(2) by (simp add: annots_list_result keeps_def)
  show "r \<in> set (annots_list (fst (remove_redaction_annots get_object page False)))"
    using assms box_subtype_not_redact[OF assms(1)] by (simp add: annots_list_result keeps_def)
next
  assume "color_raises (py_or (annot ''/IC'') (annot ''/C''))"
  then have nb: "\<not> is_black (py_or (annot ''/IC'') (annot ''/C''))"
    by (rule color_raises_not_black)
  show nbox: "\<not> looks_like_black_box annot"
    using nb by (simp add: looks_like_black_box_eq)
  show "r \<in> set (annots_list (fst (remove_redaction_annots get_object page True)))"
    using assms nbox box_subtype_not_redact[OF assms(1)]
    by (simp add: annots_list_result keeps_def)
  show "r \<in> set (annots_list (fst (remove_redaction_annots get_object page False)))"
    using assms box_subtype_not_redact[OF assms(1)] by (simp add: annots_list_result keeps_def)
qed

theorem unparsable_opacity_is_ignored_witness:
  "looks_like_black_box annot_bad_opacity \<and>
   (0::nat) \<notin> set (annots_list (fst (remove_redaction_annots (\<lambda>r. annot_bad_opacity)
        \<lparr>annots = Some [0], contents = None\<rparr> True))) \<and>
   (0::nat) \<in> set (annots_list (fst (remove_redaction_annots (\<lambda>r. annot_bad_opacity)
        \<lparr>annots = Some [0], contents = None\<rparr> False))) \<and>
   \<not> looks_like_black_box annot_bad_color \<and>
   (0::nat) \<in> set (annots_list (fst (remove_redaction_annots (\<lambda>r. annot_bad_color)
        \<lparr>annots = Some [0], contents = None\<rparr> True)))"
proof -
  have 1: "annot_bad_opacity ''/Subtype'' \<in> set (map (\<lambda>s. Some (NameObject s)) box_subtypes)"
    by (simp add: annot_bad_opacity_def box_subtypes_def)
  have 2: "py_or (annot_bad_opacity ''/IC'') (annot_bad_opacity ''/C'') =
      Some (ArrayObject [NumberObject 0, NumberObject 0, NumberObject 0])"
    by (simp add: annot_bad_opacity_def py_or_def)
  have 3: "\<forall>c\<in>set [NumberObject 0, NumberObject 0, NumberObject 0]. py_float c = Inr 0"
    by simp
  have 4: "py_float (opacity_of annot_bad_opacity) = Inl ValueError"
    by (simp add: annot_bad_opacity_def opacity_of_def dict_get_def)
  have 5: "(0::nat) \<in> set (annots_list \<lparr>annots = Some [0], contents = None\<rparr>)"
    by (simp add: annots_list_def)
  have 6: "annot_bad_color ''/Subtype'' \<in> set (map (\<lambda>s. Some (NameObject s)) box_subtypes)"
    by (simp add: annot_bad_color_def box_subtypes_def)
  have 7: "color_raises (py_or (annot_bad_color ''/IC'') (annot_bad_color ''/C''))"
    by (simp add: annot_bad_color_def py_or_def color_raises_def)
  note opacity_case =
    unparsable_opacity_is_ignored [where get_object = "\<lambda>r :: nat. annot_bad_opacity"
      and r = 0 and annot = annot_bad_opacity
      and page = "\<lparr>annots = Some [0], contents = None\<rparr>"
      and cs = "[NumberObject 0, NumberObject 0, NumberObject 0]" and e = ValueError,
      OF 1 refl 5]
  note color_case =
    unparsable_opacity_is_ignored [where get_object = "\<lambda>r :: nat. annot_bad_color"
      and r = 0 and annot = annot_bad_color
      and page = "\<lparr>annots = Some [0], contents = None\<rparr>"
      and cs = "[]" and e = ValueError,
      OF 6 refl 5]
  show ?thesis
    using opacity_case color_case 2 3 4 7 by blast
qed

text \<open>
  C1 as the claim words it fails: a black square whose \<^verbatim>\<open>/CA\<close> entry is a name is
  classified as a black box and removed in aggressive mode.
\<close>

theorem unparsable_opacity_counterexample:
  "py_float (opacity_of annot_bad_opacity) = Inl ValueError \<and>
   looks_like_black_box annot_bad_opacity \<and>
   remove_redaction_annots (\<lambda>r :: nat. annot_bad_opacity)
       \<lparr>annots = Some [0], contents = None\<rparr> True =
     (\<lparr>annots = None, contents = None\<rparr>, 1)"
  by (simp add: remove_redaction_annots_def looks_like_black_box_eq opacity_of_def dict_get_def
      annot_bad_opacity_def box_subtypes_def is_black_def py_or_def)

text \<open>
  C10. An annotation of a black-box subtype whose \<^verbatim>\<open>/IC\<close> entry is absent or an empty
  array, whose \<^verbatim>\<open>/C\<close> entry is an empty array and which has neither opacity key passes
  the black test on the empty colour, looks like a black box, and is removed by the
  aggressive filter.
\<close>

theorem empty_color_is_black:
  assumes "annot ''/Subtype'' \<in> set (map (\<lambda>s. Some (NameObject s)) box_subtypes)"
    and "annot ''/IC'' = None \<or> annot ''/IC'' = Some (ArrayObject [])"
    and "annot ''/C'' = Some (ArrayObject [])"
    and "annot ''/CA'' = None" and "annot ''/ca'' = None"
    and "get_object r = annot"
    and "r \<in> set (annots_list page)"
  shows "is_black (py_or (annot ''/IC'') (annot ''/C'')) \<and>
         looks_like_black_box annot \<and>
         r \<notin> set (annots_list (fst (remove_redaction_annots get_object page True))) \<and>
         0 < snd (remove_redaction_annots get_object page True)"
proof -
  have col: "py_or (annot ''/IC'') (annot ''/C'') = Some (ArrayObject [])"
    using assms(2,3) by (auto simp: py_or_def)
  have blk: "is_black (py_or (annot ''/IC'') (annot ''/C''))"
    by (simp add: col is_black_def)
  have op: "opacity_of annot = NumberObject 1"
    using assms(4,5) by (simp add: opacity_of_def dict_get_def)
  have box: "looks_like_black_box annot"
    using assms(1) blk by (simp add: looks_like_black_box_eq op)
  have nk: "\<not> keeps get_object True r"
    using box assms(6) by (simp add: keeps_def)
  have "filter (\<lambda>r. \<not> keeps get_object True r) (annots_list page) \<noteq> []"
    using nk assms(7) by (auto simp: filter_empty_conv)
  moreover have "annots page \<noteq> None"
    using assms(7) by (cases "annots page") (simp_all add: annots_list_def)
  moreover have "annots page \<noteq> Some []"
    using assms(7) by (auto simp: annots_list_def)
  ultimately have "0 < snd (remove_redaction_annots get_object page True)"
    by (simp add: remove_redaction_annots_eq)
  with blk box nk show ?thesis
    by (simp add: annots_list_result)
qed

theorem empty_color_is_black_witness:
  "is_black (py_or (annot_empty_color ''/IC'') (annot_empty_color ''/C'')) \<and>
   looks_like_black_box annot_empty_color \<and>
   (7::nat) \<notin> set (annots_list (fst (remove_redaction_annots (\<lambda>r. annot_empty_color)
        \<lparr>annots = Some [7], contents = None\<rparr> True))) \<and>
   0 < snd (remove_redaction_annots (\<lambda>r :: nat. annot_empty_color)
        \<lparr>annots = Some [7], contents = None\<rparr> True)"
proof -
  have 1: "annot_empty_color ''/Subtype'' \<in> set (map (\<lambda>s. Some (NameObject s)) box_subtypes)"
    by (simp add: annot_empty_color_def box_subtypes_def)
  have 2: "annot_empty_color ''/IC'' = None \<or> annot_empty_color ''/IC'' = Some (ArrayObject [])"
    by (simp add: annot_empty_color_def)
  have 3: "annot_empty_color ''/C'' = Some (ArrayObject [])"
    by (simp add: annot_empty_color_def)
  have 4: "annot_empty_color ''/CA'' = None" and 5: "annot_empty_color ''/ca'' = None"
    by (simp_all add: annot_empty_color_def)
  have 6: "(7::nat) \<in> set (annots_list \<lparr>annots = Some [7], contents = None\<rparr>)"
    by (simp add: annots_list_def)
  show ?thesis
    by (rule empty_color_is_black [OF 1 2 3 4 5 refl 6])
qed

end
